theory Spec2Isabelle
  imports Complex_Main
begin

section \<open>Shared vocabulary of the three agents\<close>

text \<open>
  The agents of \<^verbatim>\<open>InitialOrderAgent.py\<close>, \<^verbatim>\<open>ZI_market_order.py\<close> and
  \<^verbatim>\<open>agents/MomentumAgent.py\<close> are event handlers: the kernel calls \<^verbatim>\<open>wakeup\<close> and
  \<^verbatim>\<open>receiveMessage\<close>, and the handlers mutate the agent and call into the base class
  \<^verbatim>\<open>TradingAgent\<close> (\<^verbatim>\<open>setWakeup\<close>, \<^verbatim>\<open>getCurrentSpread\<close>, \<^verbatim>\<open>placeLimitOrder\<close>,
  \<^verbatim>\<open>placeMarketOrder\<close>, \<^verbatim>\<open>cancelOrder\<close>). A handler is modelled as a function from the
  agent to the updated agent and the list of base-class calls it made, in call order.
\<close>

datatype phase = INACTIVE | AWAITING_WAKEUP | AWAITING_SPREAD | ACTIVE

datatype action =
    SetWakeup int                  \<comment> \<open>\<^verbatim>\<open>setWakeup(t)\<close>, the time in nanoseconds\<close>
  | GetCurrentSpread               \<comment> \<open>\<^verbatim>\<open>getCurrentSpread(symbol)\<close>\<close>
  | PlaceLimitOrder int bool int   \<comment> \<open>quantity, is-buy, limit price\<close>
  | PlaceMarketOrder int bool      \<comment> \<open>quantity, is-buy\<close>
  | CancelOrder                    \<comment> \<open>\<^verbatim>\<open>cancelOrder(...)\<close>\<close>

datatype py_error = TypeError | IndexError | ValueError | ZeroDivisionError

fun is_order :: "action \<Rightarrow> bool" where
  "is_order (PlaceLimitOrder q b p) = True"
| "is_order (PlaceMarketOrder q b) = True"
| "is_order _ = False"

fun is_spread_request :: "action \<Rightarrow> bool" where
  "is_spread_request GetCurrentSpread = True"
| "is_spread_request _ = False"

fun is_set_wakeup :: "action \<Rightarrow> bool" where
  "is_set_wakeup (SetWakeup t) = True"
| "is_set_wakeup _ = False"

fun limit_price :: "action \<Rightarrow> int option" where
  "limit_price (PlaceLimitOrder q b p) = Some p"
| "limit_price _ = None"

text \<open>
  The fields of \<^verbatim>\<open>TradingAgent\<close> that the handlers read after their \<^verbatim>\<open>super()\<close> call.
  The base class is not part of the sources at hand, so its view of the market is an
  input of every handler: \<open>mkt_open\<close> and \<open>mkt_close\<close> say that the respective time is
  known (the Python tests \<^verbatim>\<open>not self.mkt_open\<close>), \<open>mkt_closed\<close> is the flag of the same
  name, and \<open>has_close_price\<close> is \<^verbatim>\<open>self.symbol in self.daily_close_price\<close>.
\<close>

record market =
  mkt_open :: bool
  mkt_close :: bool
  mkt_closed :: bool
  has_close_price :: bool

text \<open>
  The result of \<^verbatim>\<open>getKnownBidAsk(symbol)\<close>: a price is \<^verbatim>\<open>None\<close> when that side of the
  book is empty.
\<close>

record snapshot =
  bid :: "int option"
  bidsize :: nat
  ask :: "int option"
  asksize :: nat

text \<open>
  A \<^verbatim>\<open>numpy.random.RandomState\<close> is read as the sequence of values its successive draw
  calls return, with a cursor; a draw returns the value under the cursor and advances
  it. A floating-point number is the rational it denotes (a real for the power 0.35).
\<close>

record rng =
  draws :: "nat \<Rightarrow> rat"
  pos :: nat

definition draw :: "rng \<Rightarrow> rat \<times> rng" where
  "draw r = (draws r (pos r), r\<lparr>pos := Suc (pos r)\<rparr>)"

text \<open>\<^verbatim>\<open>np.round\<close> and Python's \<^verbatim>\<open>round\<close>: to the nearest integer, a tie to the even one.\<close>

definition np_round :: "'a::floor_ceiling \<Rightarrow> int" where
  "np_round x =
     (let f = \<lfloor>x\<rfloor>; d = x - of_int f
      in if d < 1 / 2 then f
         else if 1 / 2 < d then f + 1
         else if even f then f else f + 1)"

text \<open>
  Rounding to float64: to the nearest number with a 53-bit significand, a tie to the even
  significand, with the fixed spacing \<open>2^-1074\<close> below \<open>2^-1022\<close>. A float64 value is the
  rational it denotes; overflow to infinity is outside the model (prices and their sums
  are far below \<open>2^1024\<close>).
\<close>

definition float64 :: "rat \<Rightarrow> rat" where
  "float64 x =
     (if x = 0 then 0
      else
        let e = max \<lfloor>log 2 (real_of_rat \<bar>x\<bar>)\<rfloor> (- 1022);
            ulp = 2 powi (e - 52)
        in of_int (np_round (x / ulp)) * ulp)"

definition is_float64 :: "rat \<Rightarrow> bool" where
  "is_float64 x \<longleftrightarrow> float64 x = x"

text \<open>
  \<^verbatim>\<open>updateEstimates\<close> of both order agents: \<^verbatim>\<open>np.round\<close> of the oracle's
  \<^verbatim>\<open>observeDiscretePrice\<close>; the oracle's raw observation is the argument.
\<close>

definition updateEstimates :: "rat \<Rightarrow> rat" where
  "updateEstimates obs = of_int (np_round obs)"

text \<open>The fields every agent has (\<^verbatim>\<open>state\<close>, \<^verbatim>\<open>order_size\<close>, the private stream).\<close>

record trading_agent =
  state :: phase
  order_size :: int
  random_state :: rng

text \<open>
  The two order agents share \<^verbatim>\<open>trading\<close> and the test \<^verbatim>\<open>type(self) == <the class>\<close>
  that separates the class itself from a subclass.
\<close>

record order_agent = trading_agent +
  trading :: bool
  exact_type :: bool

text \<open>Some concrete inputs: a stream, and the market during and after the session.\<close>

definition rng0 :: rng where
  "rng0 = \<lparr>draws = (\<lambda>n. 200), pos = 0\<rparr>"

definition market_trading :: market where
  "market_trading = \<lparr>mkt_open = True, mkt_close = True, mkt_closed = False, has_close_price = False\<rparr>"

definition market_just_closed :: market where
  "market_just_closed = \<lparr>mkt_open = True, mkt_close = True, mkt_closed = True, has_close_price = False\<rparr>"

section \<open>InitialOrderAgent: the ladder strategy\<close>

record ladder_agent = order_agent +
  fill :: bool
  cancel :: bool
  first_run :: bool
  second_run :: bool

text \<open>The agent as \<^verbatim>\<open>__init__\<close> leaves it.\<close>

definition ladder_init :: "rng \<Rightarrow> ladder_agent" where
  "ladder_init r =
     \<lparr>state = AWAITING_WAKEUP, order_size = 1, random_state = r,
      trading = False, exact_type = True, fill = True, cancel = False,
      first_run = True, second_run = True\<rparr>"

definition ladder_getWakeFrequency :: "ladder_agent \<Rightarrow> int \<times> ladder_agent" where
  "ladder_getWakeFrequency s =
     (if first_run s then (10, s\<lparr>first_run := False\<rparr>)
      else if second_run s then (300000000000, s\<lparr>second_run := False\<rparr>)
      else (30000000000000, s))"

definition ladder_wakeup :: "int \<Rightarrow> market \<Rightarrow> ladder_agent \<Rightarrow> ladder_agent \<times> action list" where
  "ladder_wakeup currentTime m s0 =
     (let s1 = s0\<lparr>state := INACTIVE\<rparr> in
      if \<not> mkt_open m \<or> \<not> mkt_close m then (s1, [])
      else
        let s2 = (if \<not> trading s1 then s1\<lparr>trading := True\<rparr> else s1) in
        if mkt_closed m \<and> has_close_price m then (s2, [])
        else
          let (wake_time, s3) = ladder_getWakeFrequency s2;
              acts = [SetWakeup (currentTime + wake_time)] in
          if mkt_closed m \<and> \<not> has_close_price m
          then (s3\<lparr>state := AWAITING_SPREAD\<rparr>, acts @ [GetCurrentSpread])
          else if cancel s3 \<and> fill s3 then (s3\<lparr>state := INACTIVE\<rparr>, acts)
          else if cancel s3 then (s3\<lparr>state := AWAITING_WAKEUP\<rparr>, acts @ [CancelOrder])
          else if fill s3 then
            (let s4 = s3\<lparr>cancel := True\<rparr> in
             if exact_type s4 then (s4\<lparr>state := AWAITING_SPREAD\<rparr>, acts @ [GetCurrentSpread])
             else (s4\<lparr>state := ACTIVE\<rparr>, acts))
          else (s3, acts))"

text \<open>One pass of the loop \<^verbatim>\<open>for i in range(1, 100)\<close> of \<^verbatim>\<open>placeOrder\<close>.\<close>

definition ladder_rung :: "rat \<Rightarrow> nat \<Rightarrow> ladder_agent \<times> action list \<Rightarrow> ladder_agent \<times> action list" where
  "ladder_rung p i sa =
     (let sz = min (int i + 1) 5 in
      (fst sa\<lparr>order_size := sz\<rparr>,
       snd sa @ [PlaceLimitOrder sz True (np_round p - int i),
                 PlaceLimitOrder sz False (np_round p + int i)]))"

definition ladder_placeOrder :: "rat \<Rightarrow> ladder_agent \<Rightarrow> ladder_agent \<times> action list" where
  "ladder_placeOrder obs s =
     (let p = updateEstimates obs in fold (ladder_rung p) [1..<100] (s, []))"

definition ladder_receiveMessage ::
  "market \<Rightarrow> string \<Rightarrow> rat \<Rightarrow> ladder_agent \<Rightarrow> ladder_agent \<times> action list" where
  "ladder_receiveMessage m msg obs s =
     (if state s = AWAITING_SPREAD then
        if msg = ''QUERY_SPREAD'' then
          if mkt_closed m then (s, [])
          else (let (s1, acts) = ladder_placeOrder obs s
                in (s1\<lparr>state := AWAITING_WAKEUP\<rparr>, acts))
        else (s, [])
      else (s, []))"

text \<open>The two orders of offset \<open>i\<close> around the integer price \<open>c\<close>.\<close>

definition rung_orders :: "int \<Rightarrow> nat \<Rightarrow> action list" where
  "rung_orders c i =
     [PlaceLimitOrder (min (int i + 1) 5) True (c - int i),
      PlaceLimitOrder (min (int i + 1) 5) False (c + int i)]"

section \<open>ZI_market_order_agent: the directional market-order strategy\<close>

record zi_agent = order_agent +
  order_count :: nat
  buy_order_count :: nat

definition zi_init :: "rng \<Rightarrow> zi_agent" where
  "zi_init r =
     \<lparr>state = AWAITING_WAKEUP, order_size = 1, random_state = r,
      trading = False, exact_type = True, order_count = 0, buy_order_count = 0\<rparr>"

text \<open>
  \<^verbatim>\<open>getWakeFrequency\<close> of the market-order and momentum agents: one draw
  \<^verbatim>\<open>self.random_state.exponential(scale=1.0 / self.lambda_a)\<close> from the private stream,
  rounded to whole nanoseconds.
\<close>

definition getWakeFrequency :: "'a trading_agent_scheme \<Rightarrow> int \<times> 'a trading_agent_scheme" where
  "getWakeFrequency s =
     (let (delta_time, r) = draw (random_state s)
      in (np_round delta_time, s\<lparr>random_state := r\<rparr>))"

definition modifyWakeFrequency :: "int \<Rightarrow> int \<Rightarrow> int" where
  "modifyWakeFrequency current_time wakeFrequency = wakeFrequency"

definition zi_wakeup :: "int \<Rightarrow> market \<Rightarrow> zi_agent \<Rightarrow> zi_agent \<times> action list" where
  "zi_wakeup currentTime m s0 =
     (let s1 = s0\<lparr>state := INACTIVE\<rparr> in
      if \<not> mkt_open m \<or> \<not> mkt_close m then (s1, [])
      else
        let s2 = (if \<not> trading s1 then s1\<lparr>trading := True\<rparr> else s1) in
        if mkt_closed m \<and> has_close_price m then (s2, [])
        else
          let (wf, s3) = getWakeFrequency s2;
              wake_time = modifyWakeFrequency currentTime wf;
              acts = [SetWakeup (currentTime + wake_time)] in
          if mkt_closed m \<and> \<not> has_close_price m
          then (s3\<lparr>state := AWAITING_SPREAD\<rparr>, acts @ [GetCurrentSpread])
          else if exact_type s3 then (s3\<lparr>state := AWAITING_SPREAD\<rparr>, acts @ [GetCurrentSpread])
          else (s3\<lparr>state := ACTIVE\<rparr>, acts))"

text \<open>
  \<^verbatim>\<open>placeOrder\<close>: \<^verbatim>\<open>mid = (bid + ask)/2\<close> raises \<^verbatim>\<open>TypeError\<close> when a price is
  \<^verbatim>\<open>None\<close>; the sizes are \<^verbatim>\<open>np.round(asksize**0.35)\<close> and \<^verbatim>\<open>np.round(bidsize**0.35)\<close>.
\<close>

definition zi_placeOrder :: "snapshot \<Rightarrow> rat \<Rightarrow> zi_agent \<Rightarrow> py_error + (zi_agent \<times> action list)" where
  "zi_placeOrder snap obs s =
     (let obs_t = updateEstimates obs in
      case (bid snap, ask snap) of
        (Some b, Some a) \<Rightarrow>
          (let mid = (of_int b + of_int a) / 2 in
           if obs_t > mid then
             (let s1 = s\<lparr>order_count := order_count s + 1,
                         buy_order_count := buy_order_count s + 1\<rparr>;
                  sz = np_round (real (asksize snap) powr 0.35)
              in Inr (s1\<lparr>order_size := sz\<rparr>, [PlaceMarketOrder sz True]))
           else if obs_t < mid then
             (let s1 = s\<lparr>order_count := order_count s + 1\<rparr>;
                  sz = np_round (real (bidsize snap) powr 0.35)
              in Inr (s1\<lparr>order_size := sz\<rparr>, [PlaceMarketOrder sz False]))
           else Inr (s, []))
      | _ \<Rightarrow> Inl TypeError)"

definition zi_receiveMessage ::
  "market \<Rightarrow> string \<Rightarrow> snapshot \<Rightarrow> rat \<Rightarrow> zi_agent \<Rightarrow> py_error + (zi_agent \<times> action list)" where
  "zi_receiveMessage m msg snap obs s =
     (if state s = AWAITING_SPREAD then
        if msg = ''QUERY_SPREAD'' then
          if mkt_closed m then Inr (s, [])
          else (case zi_placeOrder snap obs s of
                  Inl e \<Rightarrow> Inl e
                | Inr (s1, acts) \<Rightarrow> Inr (s1\<lparr>state := AWAITING_WAKEUP\<rparr>, acts))
        else Inr (s, [])
      else Inr (s, []))"

text \<open>
  \<^verbatim>\<open>getOrderSize\<close>, the same text in both classes: the power-law sample comes from
  \<^verbatim>\<open>np.random.power(3.5)\<close>, numpy's process-wide generator, which is the first argument
  here, and the coin \<^verbatim>\<open>i\<close> from \<^verbatim>\<open>self.random_state.rand()\<close>. The sample is a Python
  float, so a zero raises \<^verbatim>\<open>ZeroDivisionError\<close>. \<^verbatim>\<open>np.round(x, -1)\<close> is
  \<^verbatim>\<open>10 * np.round(x / 10)\<close>.
\<close>

definition getOrderSize ::
  "rng \<Rightarrow> 'a trading_agent_scheme \<Rightarrow> py_error + ('a trading_agent_scheme \<times> rng)" where
  "getOrderSize np_random s =
     (let (x, np_random1) = draw np_random in
      if x = 0 then Inl ZeroDivisionError
      else
        let order_size0 = \<lceil>70 / x\<rceil>;
            (i, r) = draw (random_state s);
            s1 = s\<lparr>random_state := r\<rparr> in
        if i < 8 / 10 then Inr (s1\<lparr>order_size := order_size0\<rparr>, np_random1)
        else
          let order_size1 = (if order_size0 < 5 then order_size0 + 5 else order_size0)
          in Inr (s1\<lparr>order_size := 10 * np_round (rat_of_int order_size1 / 10)\<rparr>, np_random1))"

section \<open>MomentumAgent: the moving-average crossover strategy\<close>

record momentum_agent = trading_agent +
  short_duration :: nat
  long_duration :: nat
  margin :: rat
  mid_list :: "rat list"
  ma_short :: "rat option"
  ma_long :: "rat option"
  bidvol :: nat
  askvol :: nat

text \<open>
  \<^verbatim>\<open>__init__\<close> with the default windows and margin; the first draw of the private stream
  is \<^verbatim>\<open>randint(min_size, max_size)\<close>.
\<close>

definition momentum_init :: "rng \<Rightarrow> momentum_agent" where
  "momentum_init r0 =
     (let (v, r) = draw r0 in
      \<lparr>state = AWAITING_WAKEUP, order_size = \<lfloor>v\<rfloor>, random_state = r,
       short_duration = 20, long_duration = 40, margin = 0, mid_list = [],
       ma_short = None, ma_long = None, bidvol = 0, askvol = 0\<rparr>)"

text \<open>
  \<^verbatim>\<open>np.cumsum(a, dtype=float)\<close>: every entry is converted to float64 and the running sum
  is rounded after each addition.
\<close>

fun cumsum_from :: "rat \<Rightarrow> rat list \<Rightarrow> rat list" where
  "cumsum_from acc [] = []"
| "cumsum_from acc (x # xs) = (let s = float64 (acc + float64 x) in s # cumsum_from s xs)"

definition cumsum :: "rat list \<Rightarrow> rat list" where
  "cumsum a = (case a of [] \<Rightarrow> [] | x # xs \<Rightarrow> float64 x # cumsum_from (float64 x) xs)"

text \<open>
  \<^verbatim>\<open>ma(a, n)\<close>. The slices \<^verbatim>\<open>ret[n:]\<close> and \<^verbatim>\<open>ret[:-n]\<close> have the same length for
  \<open>n \<ge> 1\<close>; for \<open>n = 0\<close> the second is empty and numpy raises \<^verbatim>\<open>ValueError\<close> unless
  \<^verbatim>\<open>a\<close> is empty. The window length is a natural number. The subtraction and the
  division by \<^verbatim>\<open>n\<close> are float64 operations: each result is rounded.
\<close>

definition ma :: "rat list \<Rightarrow> nat \<Rightarrow> py_error + rat list" where
  "ma a n =
     (let ret = cumsum a in
      if n = 0 then (if a = [] then Inr [] else Inl ValueError)
      else
        let ret1 = take n ret
              @ map2 (\<lambda>x y. float64 (x - y)) (drop n ret) (take (length ret - n) ret)
        in Inr (map (\<lambda>x. float64 (x / float64 (of_nat n))) (drop (n - 1) ret1)))"

text \<open>The windowed average written directly: the mean of \<open>a[j], ..., a[j+n-1]\<close>.\<close>

definition window_mean :: "rat list \<Rightarrow> nat \<Rightarrow> nat \<Rightarrow> rat" where
  "window_mean a n j = sum_list (take n (drop j a)) / of_nat n"

text \<open>
  The exact sums that the prefix-sum computation forms: the sums of the first \<open>k\<close>
  entries, and the sums of \<open>n\<close> consecutive entries.
\<close>

definition prefix_sums :: "rat list \<Rightarrow> rat list" where
  "prefix_sums a = map (\<lambda>k. sum_list (take k a)) [0..<Suc (length a)]"

definition window_sums :: "rat list \<Rightarrow> nat \<Rightarrow> rat list" where
  "window_sums a n = map (\<lambda>j. sum_list (take n (drop j a))) [0..<Suc (length a - n)]"

text \<open>\<^verbatim>\<open>xs[-1]\<close>.\<close>

definition last_item :: "'a list \<Rightarrow> py_error + 'a" where
  "last_item xs = (if xs = [] then Inl IndexError else Inr (last xs))"

text \<open>The truth value of a price: \<^verbatim>\<open>None\<close> and \<^verbatim>\<open>0\<close> are false.\<close>

definition truthy :: "int option \<Rightarrow> bool" where
  "truthy v = (case v of None \<Rightarrow> False | Some x \<Rightarrow> x \<noteq> 0)"

definition momentum_wakeup :: "bool \<Rightarrow> momentum_agent \<Rightarrow> momentum_agent \<times> action list" where
  "momentum_wakeup can_trade s =
     (if \<not> can_trade then (s, [])
      else (s\<lparr>state := AWAITING_SPREAD\<rparr>, [GetCurrentSpread]))"

text \<open>
  The body of \<^verbatim>\<open>if len(self.mid_list) > self.long_duration\<close> in \<^verbatim>\<open>receiveMessage\<close>:
  evict the oldest sample, compute both averages, compare.
\<close>

definition momentum_crossover :: "momentum_agent \<Rightarrow> py_error + (momentum_agent \<times> action list)" where
  "momentum_crossover s =
     (let s1 = s\<lparr>mid_list := tl (mid_list s)\<rparr> in
      case ma (mid_list s1) (short_duration s1) of
        Inl e \<Rightarrow> Inl e
      | Inr shorts \<Rightarrow>
      (case last_item shorts of
        Inl e \<Rightarrow> Inl e
      | Inr sh \<Rightarrow>
      (let s2 = s1\<lparr>ma_short := Some (of_int (np_round sh))\<rparr> in
       case ma (mid_list s2) (long_duration s2) of
         Inl e \<Rightarrow> Inl e
       | Inr longs \<Rightarrow>
       (case last_item longs of
         Inl e \<Rightarrow> Inl e
       | Inr lg \<Rightarrow>
       (let s3 = s2\<lparr>ma_long := Some (of_int (np_round lg))\<rparr>;
            mshort = (of_int (np_round sh) :: rat);
            mlong = (of_int (np_round lg) :: rat) in
        if mshort \<noteq> 0 \<and> mlong \<noteq> 0 then
          (let buyorder = np_round (real (askvol s3) powr 0.35);
               sellorder = np_round (real (bidvol s3) powr 0.35) in
           if mshort < mlong - margin s3 then Inr (s3, [PlaceMarketOrder sellorder False])
           else if mshort > mlong + margin s3 then Inr (s3, [PlaceMarketOrder buyorder True])
           else Inr (s3, []))
        else Inr (s3, []))))))"

definition momentum_receiveMessage ::
  "int \<Rightarrow> string \<Rightarrow> snapshot \<Rightarrow> momentum_agent \<Rightarrow> py_error + (momentum_agent \<times> action list)" where
  "momentum_receiveMessage currentTime msg snap s =
     (if state s = AWAITING_SPREAD \<and> msg = ''QUERY_SPREAD'' then
        let s1 = s\<lparr>bidvol := bidsize snap, askvol := asksize snap\<rparr>;
            traded =
              (if truthy (bid snap) \<and> truthy (ask snap) then
                 let mid = (rat_of_int (the (bid snap)) + rat_of_int (the (ask snap))) / 2;
                     s2 = s1\<lparr>mid_list := mid_list s1 @ [mid]\<rparr> in
                 if length (mid_list s2) > long_duration s2 then momentum_crossover s2
                 else Inr (s2, [])
               else Inr (s1, []))
        in case traded of
             Inl e \<Rightarrow> Inl e
           | Inr (s3, acts) \<Rightarrow>
               (let (d, s4) = getWakeFrequency s3
                in Inr (s4\<lparr>state := AWAITING_WAKEUP\<rparr>, acts @ [SetWakeup (currentTime + d)]))
      else Inr (s, []))"

text \<open>
  A decision cycle of the momentum agent is a wakeup that may trade followed by the
  \<^verbatim>\<open>QUERY_SPREAD\<close> response; a run is a sequence of cycles, each with the time and the
  snapshot of its response. \<open>mid_samples\<close> lists the mid-prices a run appends to the window.
\<close>

definition momentum_cycle ::
  "int \<times> snapshot \<Rightarrow> momentum_agent \<Rightarrow> py_error + (momentum_agent \<times> action list)" where
  "momentum_cycle c s =
     (let (s1, a1) = momentum_wakeup True s in
      case momentum_receiveMessage (fst c) ''QUERY_SPREAD'' (snd c) s1 of
        Inl e \<Rightarrow> Inl e
      | Inr (s2, a2) \<Rightarrow> Inr (s2, a1 @ a2))"

fun momentum_run ::
  "momentum_agent \<Rightarrow> (int \<times> snapshot) list \<Rightarrow> py_error + (momentum_agent \<times> action list)" where
  "momentum_run s [] = Inr (s, [])"
| "momentum_run s (c # cs) =
     (case momentum_cycle c s of
        Inl e \<Rightarrow> Inl e
      | Inr (s1, a1) \<Rightarrow>
          (case momentum_run s1 cs of
             Inl e \<Rightarrow> Inl e
           | Inr (s2, a2) \<Rightarrow> Inr (s2, a1 @ a2)))"

fun mid_samples :: "(int \<times> snapshot) list \<Rightarrow> rat list" where
  "mid_samples [] = []"
| "mid_samples (c # cs) =
     (if truthy (bid (snd c)) \<and> truthy (ask (snd c))
      then ((rat_of_int (the (bid (snd c))) + rat_of_int (the (ask (snd c)))) / 2) # mid_samples cs
      else mid_samples cs)"

definition quote :: "int \<Rightarrow> nat \<Rightarrow> int \<Rightarrow> nat \<Rightarrow> snapshot" where
  "quote b bs a as = \<lparr>bid = Some b, bidsize = bs, ask = Some a, asksize = as\<rparr>"

section \<open>Concrete states used below\<close>

text \<open>The ladder agent after its first wakeup with the market open.\<close>

definition ladder_filled :: ladder_agent where
  "ladder_filled = fst (ladder_wakeup 0 market_trading (ladder_init rng0))"

text \<open>The market-order agent after its first wakeup with the market open.\<close>

definition zi_requested :: zi_agent where
  "zi_requested = fst (zi_wakeup 0 market_trading (zi_init rng0))"

text \<open>
  Two states of numpy's process-wide generator, and a private stream as a seed fixes it.
\<close>

definition np_random_a :: rng where
  "np_random_a = \<lparr>draws = (\<lambda>n. 1 / 2), pos = 0\<rparr>"

definition np_random_b :: rng where
  "np_random_b = \<lparr>draws = (\<lambda>n. 1 / 4), pos = 0\<rparr>"

definition seeded :: rng where
  "seeded = \<lparr>draws = (\<lambda>n. 1 / 2), pos = 0\<rparr>"

section \<open>The ladder\<close>

lemma np_round_of_int: "np_round (of_int k :: 'a::floor_ceiling) = k"
  by (simp add: np_round_def)

lemma np_round_eqI:
  fixes x :: "'a::floor_ceiling"
  assumes "of_int k - 1 / 2 < x" and "x < of_int k + 1 / 2"
  shows "np_round x = k"
proof (cases "x < of_int k")
  case True
  then have f: "\<lfloor>x\<rfloor> = k - 1" using assms by (intro floor_unique) (simp_all add: algebra_simps)
  show ?thesis using assms True by (simp add: np_round_def f Let_def algebra_simps)
next
  case False
  then have f: "\<lfloor>x\<rfloor> = k" using assms by (intro floor_unique) (simp_all add: algebra_simps)
  show ?thesis using assms False by (simp add: np_round_def f Let_def algebra_simps)
qed

lemma floor_updateEstimates: "\<lfloor>updateEstimates obs\<rfloor> = np_round obs"
  by (simp add: updateEstimates_def)

lemma np_round_updateEstimates: "np_round (updateEstimates obs) = np_round obs"
  by (simp add: updateEstimates_def np_round_of_int)

lemma snd_fold_ladder_rung:
  "snd (fold (ladder_rung p) is sa) = snd sa @ concat (map (rung_orders (np_round p)) is)"
  by (induction "is" arbitrary: sa) (simp_all add: ladder_rung_def rung_orders_def Let_def)

lemma ladder_placeOrder_actions:
  "snd (ladder_placeOrder obs s) = concat (map (rung_orders \<lfloor>updateEstimates obs\<rfloor>) [1..<100])"
  by (simp add: ladder_placeOrder_def snd_fold_ladder_rung np_round_updateEstimates
      floor_updateEstimates)

lemma length_concat_rungs: "length (concat (map (rung_orders c) is)) = 2 * length is"
  by (induction "is") (simp_all add: rung_orders_def)

lemma rung_price_off_centre:
  "a \<in> set (concat (map (rung_orders c) [1..<100])) \<Longrightarrow> limit_price a \<noteq> Some c"
  by (auto simp: rung_orders_def)

text \<open>
  C1. One decision cycle of the ladder agent (a \<^verbatim>\<open>QUERY_SPREAD\<close> response processed in
  phase \<open>AWAITING_SPREAD\<close> while the market is not closed), with \<open>p\<close> the valuation estimate
  that \<^verbatim>\<open>updateEstimates\<close> returns for the oracle's observation, emits exactly 198 limit
  orders: for each offset \<open>i\<close> from 1 to 99, in this order, a buy at \<open>\<lfloor>p\<rfloor> - i\<close> and a sell at
  \<open>\<lfloor>p\<rfloor> + i\<close>, both of quantity \<open>min (i + 1) 5\<close>; no order is priced at \<open>\<lfloor>p\<rfloor>\<close>.
\<close>

theorem ladder_cycle_emits_198_orders:
  assumes "state s = AWAITING_SPREAD" and "\<not> mkt_closed m"
  shows "(let p = updateEstimates obs;
              acts = snd (ladder_receiveMessage m ''QUERY_SPREAD'' obs s)
          in acts = concat (map (\<lambda>i. [PlaceLimitOrder (min (int i + 1) 5) True (\<lfloor>p\<rfloor> - int i),
                                        PlaceLimitOrder (min (int i + 1) 5) False (\<lfloor>p\<rfloor> + int i)])
                                 [1..<100])
             \<and> length acts = 198
             \<and> (\<forall>a \<in> set acts. is_order a \<and> limit_price a \<noteq> Some \<lfloor>p\<rfloor>))"
proof -
  define p where "p = updateEstimates obs"
  define acts where "acts = snd (ladder_receiveMessage m ''QUERY_SPREAD'' obs s)"
  have acts: "acts = concat (map (rung_orders \<lfloor>p\<rfloor>) [1..<100])"
    using assms ladder_placeOrder_actions [of obs s]
    by (simp add: acts_def p_def ladder_receiveMessage_def split_beta)
  have shape: "rung_orders \<lfloor>p\<rfloor> =
      (\<lambda>i. [PlaceLimitOrder (min (int i + 1) 5) True (\<lfloor>p\<rfloor> - int i),
            PlaceLimitOrder (min (int i + 1) 5) False (\<lfloor>p\<rfloor> + int i)])"
    by (rule ext) (simp add: rung_orders_def)
  have len: "length acts = 198"
    by (simp add: acts length_concat_rungs)
  have off: "\<forall>a \<in> set acts. is_order a \<and> limit_price a \<noteq> Some \<lfloor>p\<rfloor>"
  proof
    fix a assume a: "a \<in> set acts"
    then have "limit_price a \<noteq> Some \<lfloor>p\<rfloor>"
      using rung_price_off_centre [of a "\<lfloor>p\<rfloor>"] by (simp add: acts)
    moreover have "is_order a"
      using a by (auto simp: acts rung_orders_def)
    ultimately show "is_order a \<and> limit_price a \<noteq> Some \<lfloor>p\<rfloor>" by simp
  qed
  from acts shape len off show ?thesis
    unfolding Let_def p_def [symmetric] acts_def [symmetric] by simp
qed

theorem ladder_cycle_witness:
  "state ((ladder_init rng0)\<lparr>state := AWAITING_SPREAD\<rparr>) = AWAITING_SPREAD
   \<and> \<not> mkt_closed market_trading
   \<and> \<lfloor>updateEstimates (1000003 / 10)\<rfloor> = 100000
   \<and> length (snd (ladder_receiveMessage market_trading ''QUERY_SPREAD'' (1000003 / 10)
        ((ladder_init rng0)\<lparr>state := AWAITING_SPREAD\<rparr>))) = 198
   \<and> take 4 (snd (ladder_receiveMessage market_trading ''QUERY_SPREAD'' (1000003 / 10)
        ((ladder_init rng0)\<lparr>state := AWAITING_SPREAD\<rparr>)))
       = [PlaceLimitOrder 2 True 99999, PlaceLimitOrder 2 False 100001,
          PlaceLimitOrder 3 True 99998, PlaceLimitOrder 3 False 100002]"
proof -
  let ?s = "(ladder_init rng0)\<lparr>state := AWAITING_SPREAD\<rparr>"
  let ?acts = "snd (ladder_receiveMessage market_trading ''QUERY_SPREAD'' (1000003 / 10) ?s)"
  have pre: "state ?s = AWAITING_SPREAD" "\<not> mkt_closed market_trading"
    by (simp_all add: market_trading_def)
  have est: "\<lfloor>updateEstimates (1000003 / 10)\<rfloor> = 100000"
    by (simp add: updateEstimates_def np_round_eqI [of 100000])
  have upt: "[1..<100] = 1 # 2 # [3..<100]"
    by (simp add: upt_rec)
  note cycle = ladder_cycle_emits_198_orders [OF pre, of "1000003 / 10", unfolded Let_def est]
  from cycle have len: "length ?acts = 198"
    by blast
  from cycle have "?acts =
      concat (map (\<lambda>i. [PlaceLimitOrder (min (int i + 1) 5) True (100000 - int i),
                         PlaceLimitOrder (min (int i + 1) 5) False (100000 + int i)])
                  [1..<100])"
    by blast
  then have first: "take 4 ?acts =
      [PlaceLimitOrder 2 True 99999, PlaceLimitOrder 2 False 100001,
       PlaceLimitOrder 3 True 99998, PlaceLimitOrder 3 False 100002]"
    by (subst (asm) upt) simp
  from pre est len first show ?thesis by blast
qed

section \<open>The filling and cancelling flags\<close>

lemma ladder_filled_eq:
  "ladder_filled = \<lparr>state = AWAITING_SPREAD, order_size = 1, random_state = rng0,
      trading = True, exact_type = True, fill = True, cancel = True,
      first_run = False, second_run = True\<rparr>"
  by (simp add: ladder_filled_def ladder_wakeup_def ladder_init_def market_trading_def
      ladder_getWakeFrequency_def Let_def)

lemma ladder_getWakeFrequency_flags:
  "fill (snd (ladder_getWakeFrequency s)) = fill s"
  "cancel (snd (ladder_getWakeFrequency s)) = cancel s"
  "state (snd (ladder_getWakeFrequency s)) = state s"
  "exact_type (snd (ladder_getWakeFrequency s)) = exact_type s"
  by (simp_all add: ladder_getWakeFrequency_def)

text \<open>
  C2, as stated, fails. The constructor sets \<open>fill\<close> and clears \<open>cancel\<close>; the first
  wakeup with the market open sets \<open>cancel\<close> and nothing ever clears \<open>fill\<close>, so the state
  after that wakeup has both flags. And from that state a wakeup after the close, with
  no closing price recorded yet, requests the spread and enters \<open>AWAITING_SPREAD\<close>
  instead of \<open>INACTIVE\<close>.
\<close>

theorem ladder_flags_counterexample:
  "fill ladder_filled \<and> cancel ladder_filled
   \<and> state (fst (ladder_wakeup 10 market_just_closed ladder_filled)) = AWAITING_SPREAD
   \<and> snd (ladder_wakeup 10 market_just_closed ladder_filled)
       = [SetWakeup 300000000010, GetCurrentSpread]"
  by (simp add: ladder_filled_eq ladder_wakeup_def market_just_closed_def
      ladder_getWakeFrequency_def Let_def)

text \<open>
  C2, amended. In any state of the ladder agent where both flags are true, the wakeup
  handler places no order and cancels none, and leaves both flags true. It sets the phase
  to \<open>INACTIVE\<close> and requests no spread, except when the market times are known and the
  market has closed without a recorded closing price: then it makes the final spread
  request and the phase is \<open>AWAITING_SPREAD\<close>.
\<close>

theorem ladder_both_flags_wakeup:
  assumes "fill s" and "cancel s"
  shows "(\<forall>a \<in> set (snd (ladder_wakeup t m s)). \<not> is_order a \<and> a \<noteq> CancelOrder)
    \<and> fill (fst (ladder_wakeup t m s)) \<and> cancel (fst (ladder_wakeup t m s))
    \<and> (if mkt_open m \<and> mkt_close m \<and> mkt_closed m \<and> \<not> has_close_price m
        then state (fst (ladder_wakeup t m s)) = AWAITING_SPREAD
             \<and> GetCurrentSpread \<in> set (snd (ladder_wakeup t m s))
             \<and> length (filter is_spread_request (snd (ladder_wakeup t m s))) = 1
        else state (fst (ladder_wakeup t m s)) = INACTIVE
             \<and> GetCurrentSpread \<notin> set (snd (ladder_wakeup t m s)))"
  using assms
  by (simp add: ladder_wakeup_def Let_def split_beta ladder_getWakeFrequency_flags)

theorem ladder_both_flags_witness:
  "fill ladder_filled \<and> cancel ladder_filled
   \<and> state (fst (ladder_wakeup 10 market_trading ladder_filled)) = INACTIVE
   \<and> snd (ladder_wakeup 10 market_trading ladder_filled) = [SetWakeup 300000000010]
   \<and> state (fst (ladder_wakeup 10 market_just_closed ladder_filled)) = AWAITING_SPREAD
   \<and> GetCurrentSpread \<in> set (snd (ladder_wakeup 10 market_just_closed ladder_filled))"
proof -
  have flags: "fill ladder_filled" "cancel ladder_filled"
    by (simp_all add: ladder_filled_eq)
  have acts: "snd (ladder_wakeup 10 market_trading ladder_filled) = [SetWakeup 300000000010]"
    by (simp add: ladder_filled_eq ladder_wakeup_def market_trading_def
        ladder_getWakeFrequency_def Let_def)
  from ladder_both_flags_wakeup [OF flags, of 10 market_trading]
  have open_market: "state (fst (ladder_wakeup 10 market_trading ladder_filled)) = INACTIVE"
    by (simp add: market_trading_def)
  from ladder_both_flags_wakeup [OF flags, of 10 market_just_closed]
  have closed_market: "state (fst (ladder_wakeup 10 market_just_closed ladder_filled)) = AWAITING_SPREAD
      \<and> GetCurrentSpread \<in> set (snd (ladder_wakeup 10 market_just_closed ladder_filled))"
    by (simp add: market_just_closed_def)
  from flags acts open_market closed_market show ?thesis by blast
qed

section \<open>Spread requests\<close>

lemma zi_requested_eq:
  "zi_requested = \<lparr>state = AWAITING_SPREAD, order_size = 1,
      random_state = \<lparr>draws = (\<lambda>n. 200), pos = 1\<rparr>,
      trading = True, exact_type = True, order_count = 0, buy_order_count = 0\<rparr>"
  by (simp add: zi_requested_def zi_wakeup_def zi_init_def market_trading_def rng0_def
      getWakeFrequency_def draw_def Let_def np_round_of_int [of 200, simplified])













section \<open>Scheduling the next wakeup\<close>

lemma ladder_wakeup_schedules_first:
  assumes "mkt_open m" and "mkt_close m" and "\<not> (mkt_closed m \<and> has_close_price m)"
  shows "\<exists>rest. snd (ladder_wakeup t m s)
            = SetWakeup (t + (if first_run s then 10
                              else if second_run s then 300000000000
                              else 30000000000000)) # rest
          \<and> (\<forall>a \<in> set rest. \<not> is_set_wakeup a)"
  using assms
  by (auto simp: ladder_wakeup_def Let_def split_beta ladder_getWakeFrequency_def)

lemma zi_wakeup_schedules_first:
  assumes "mkt_open m" and "mkt_close m" and "\<not> (mkt_closed m \<and> has_close_price m)"
  shows "\<exists>rest. snd (zi_wakeup t m s)
            = SetWakeup (t + np_round (fst (draw (random_state s)))) # rest
          \<and> (\<forall>a \<in> set rest. \<not> is_set_wakeup a)"
  using assms
  by (auto simp: zi_wakeup_def Let_def split_beta getWakeFrequency_def modifyWakeFrequency_def)

lemma momentum_crossover_random_state:
  "momentum_crossover s = Inr (s', acts) \<Longrightarrow> random_state s' = random_state s"
  by (auto simp: momentum_crossover_def Let_def split: sum.splits if_splits)

lemma momentum_receiveMessage_schedules_last:
  assumes "state s = AWAITING_SPREAD"
    and "momentum_receiveMessage t ''QUERY_SPREAD'' snap s = Inr (s', acts)"
  shows "acts \<noteq> [] \<and> last acts = SetWakeup (t + np_round (fst (draw (random_state s))))
         \<and> state s' = AWAITING_WAKEUP"
  using assms
  by (auto simp: momentum_receiveMessage_def Let_def split_beta getWakeFrequency_def
      split: if_splits sum.splits dest: momentum_crossover_random_state)

lemma momentum_init_eq:
  "momentum_init rng0 = \<lparr>state = AWAITING_WAKEUP, order_size = 200,
       random_state = \<lparr>draws = (\<lambda>n. 200), pos = 1\<rparr>,
       short_duration = 20, long_duration = 40, margin = 0, mid_list = [],
       ma_short = None, ma_long = None, bidvol = 0, askvol = 0\<rparr>"
  by (simp add: momentum_init_def rng0_def draw_def)

text \<open>
  C6, as stated, fails for the momentum agent: its wakeup, when it may trade, requests the
  spread and schedules nothing.
\<close>

theorem momentum_wakeup_counterexample:
  "snd (momentum_wakeup True (momentum_init rng0)) = [GetCurrentSpread]
   \<and> state (fst (momentum_wakeup True (momentum_init rng0))) = AWAITING_SPREAD"
  by (simp add: momentum_wakeup_def)

text \<open>
  C6, amended. When the market times are known and the market is not closed with its
  closing price recorded, the wakeup of the ladder agent and of the market-order agent
  schedules the next wakeup as its first call, before any spread request, and schedules
  nothing else (the ladder after 10 ns, then 300 s, then 30000 s; the market-order agent
  after the rounded draw of its private stream). The momentum agent's wakeup schedules
  nothing: that agent schedules its next wakeup as the last call of processing a
  \<^verbatim>\<open>QUERY_SPREAD\<close> response in phase \<open>AWAITING_SPREAD\<close>.
\<close>

theorem next_wakeup_scheduling:
  assumes "mkt_open m" and "mkt_close m" and "\<not> (mkt_closed m \<and> has_close_price m)"
  shows "(\<exists>rest. snd (ladder_wakeup t m sl)
            = SetWakeup (t + (if first_run sl then 10
                              else if second_run sl then 300000000000
                              else 30000000000000)) # rest
          \<and> (\<forall>a \<in> set rest. \<not> is_set_wakeup a))
     \<and> (\<exists>rest. snd (zi_wakeup t m sz)
            = SetWakeup (t + np_round (fst (draw (random_state sz)))) # rest
          \<and> (\<forall>a \<in> set rest. \<not> is_set_wakeup a))
     \<and> (\<forall>a \<in> set (snd (momentum_wakeup c sm)). \<not> is_set_wakeup a)
     \<and> (\<forall>s' acts. state sm = AWAITING_SPREAD
            \<and> momentum_receiveMessage t ''QUERY_SPREAD'' snap sm = Inr (s', acts)
          \<longrightarrow> acts \<noteq> [] \<and> last acts = SetWakeup (t + np_round (fst (draw (random_state sm))))
              \<and> state s' = AWAITING_WAKEUP)"
proof -
  have mom: "\<forall>a \<in> set (snd (momentum_wakeup c sm)). \<not> is_set_wakeup a"
    by (simp add: momentum_wakeup_def)
  show ?thesis
    using ladder_wakeup_schedules_first [OF assms, of t sl]
      zi_wakeup_schedules_first [OF assms, of t sz] mom
      momentum_receiveMessage_schedules_last [of sm t snap]
    by blast
qed

theorem next_wakeup_scheduling_witness:
  "mkt_open market_trading \<and> mkt_close market_trading
   \<and> \<not> (mkt_closed market_trading \<and> has_close_price market_trading)
   \<and> snd (ladder_wakeup 0 market_trading (ladder_init rng0)) = [SetWakeup 10, GetCurrentSpread]
   \<and> hd (snd (zi_wakeup 0 market_trading (zi_init rng0))) = SetWakeup 200"
proof -
  have pre: "mkt_open market_trading" "mkt_close market_trading"
    "\<not> (mkt_closed market_trading \<and> has_close_price market_trading)"
    by (simp_all add: market_trading_def)
  have d: "np_round (fst (draw (random_state (zi_init rng0)))) = 200"
    by (simp add: zi_init_def rng0_def draw_def np_round_of_int [of 200, simplified])
  from next_wakeup_scheduling [OF pre, of 0 "ladder_init rng0" "zi_init rng0" True
      "momentum_init rng0" "quote 99 10 101 10"]
  have "hd (snd (zi_wakeup 0 market_trading (zi_init rng0))) = SetWakeup 200"
    by (auto simp: d)
  moreover have "snd (ladder_wakeup 0 market_trading (ladder_init rng0))
      = [SetWakeup 10, GetCurrentSpread]"
    by (simp add: ladder_wakeup_def ladder_init_def market_trading_def
        ladder_getWakeFrequency_def Let_def)
  ultimately show ?thesis using pre by blast
qed

section \<open>The moving average\<close>

subsection \<open>Rounding to float64\<close>

lemma real_of_rat_powi: "real_of_rat (2 powi e) = 2 powr (real_of_int e)"
proof (cases "0 \<le> e")
  case True
  then show ?thesis
    by (simp add: power_int_def of_rat_power powr_int)
next
  case False
  then show ?thesis
    by (simp add: power_int_def of_rat_power of_rat_divide powr_int power_one_over)
qed

lemma floor_log2_rat:
  assumes "2 powi e \<le> \<bar>x\<bar>" and "\<bar>x\<bar> < 2 powi (e + 1)"
  shows "\<lfloor>log 2 (real_of_rat \<bar>x\<bar>)\<rfloor> = e"
proof -
  have "(0::rat) < 2 powi e" by simp
  with assms(1) have "0 < \<bar>x\<bar>" by linarith
  then have pos: "0 < real_of_rat \<bar>x\<bar>" by (simp only: zero_less_of_rat_iff)
  have lo: "2 powr (real_of_int e) \<le> real_of_rat \<bar>x\<bar>"
    using assms(1) unfolding real_of_rat_powi [symmetric] by (simp only: of_rat_less_eq)
  have hi: "real_of_rat \<bar>x\<bar> < 2 powr (real_of_int (e + 1))"
    using assms(2) unfolding real_of_rat_powi [symmetric] by (simp only: of_rat_less)
  from lo hi show ?thesis
    using floor_log_eq_powr_iff [OF pos, of 2 e] by simp
qed

text \<open>Evaluating \<open>float64\<close> at a number whose binade is known.\<close>

lemma float64_eqI:
  assumes "2 powi e \<le> \<bar>x\<bar>" and "\<bar>x\<bar> < 2 powi (e + 1)" and "- 1022 \<le> e"
  shows "float64 x = of_int (np_round (x / 2 powi (e - 52))) * 2 powi (e - 52)"
proof -
  have "(0::rat) < 2 powi e" by simp
  with assms(1) have "0 < \<bar>x\<bar>" by linarith
  then have "x \<noteq> 0" by simp
  then show ?thesis
    using assms(3) by (simp add: float64_def floor_log2_rat [OF assms(1,2)] Let_def max_def)
qed

lemma np_round_tie: "np_round (of_int k + 1 / 2 :: rat) = (if even k then k else k + 1)"
proof -
  have "\<lfloor>of_int k + 1 / 2 :: rat\<rfloor> = k"
    by (intro floor_unique) simp_all
  then show ?thesis
    by (simp add: np_round_def Let_def)
qed

lemma float64_0: "float64 0 = 0"
  by (simp add: float64_def)

text \<open>A quotient \<open>m / 2^q\<close> with \<open>\<bar>m\<bar> < 2^53\<close> is a float64 value.\<close>

lemma float64_dyadic:
  assumes "\<bar>m\<bar> < 2 ^ 53" and "q \<le> 1074"
  shows "float64 (of_int m / 2 ^ q) = of_int m / 2 ^ q"
proof (cases "m = 0")
  case True
  then show ?thesis by (simp add: float64_0)
next
  case False
  define x where "x = rat_of_int m / 2 ^ q"
  define e where "e = \<lfloor>log 2 (real_of_rat \<bar>x\<bar>)\<rfloor>"
  define E where "E = max e (- 1022)"
  have x0: "x \<noteq> 0" using False by (simp add: x_def)
  then have pos: "0 < real_of_rat \<bar>x\<bar>" by (simp add: zero_less_of_rat_iff)
  have "rat_of_int \<bar>m\<bar> < rat_of_int (2 ^ 53)"
    using assms(1) by (simp only: of_int_less_iff)
  then have "\<bar>x\<bar> < 2 ^ 53 / 2 ^ q"
    by (simp add: x_def abs_divide divide_strict_right_mono)
  also have "(2 ^ 53 / 2 ^ q :: rat) = 2 powi (53 - int q)"
    by (simp add: power_int_diff)
  finally have "real_of_rat \<bar>x\<bar> < real_of_rat (2 powi (53 - int q))"
    by (simp only: of_rat_less)
  then have "real_of_rat \<bar>x\<bar> < 2 powr (real_of_int (53 - int q))"
    by (simp only: real_of_rat_powi)
  then have "log 2 (real_of_rat \<bar>x\<bar>) < real_of_int (53 - int q)"
    using pos by (simp add: log_less_iff)
  then have "e < 53 - int q"
    unfolding e_def by (simp only: floor_less_iff)
  then have E_le: "E \<le> 52 - int q"
    using assms(2) by (simp add: E_def)
  define d where "d = nat (52 - int q - E)"
  have "E - 52 = - int (q + d)"
    using E_le by (simp add: d_def)
  then have "(2 powi (E - 52) :: rat) = 2 powi (- int (q + d))"
    by (simp only:)
  also have "\<dots> = inverse (2 ^ (q + d))"
    by (simp only: power_int_minus power_int_of_nat)
  also have "\<dots> = 1 / (2 ^ q * 2 ^ d)"
    by (simp add: power_add inverse_eq_divide)
  finally have ulp: "(2 powi (E - 52) :: rat) = 1 / (2 ^ q * 2 ^ d)" .
  have scaled: "x / (1 / (2 ^ q * 2 ^ d)) = rat_of_int (m * 2 ^ d)"
    by (simp add: x_def)
  have "float64 x = of_int (np_round (x / 2 powi (E - 52))) * 2 powi (E - 52)"
    using x0 by (simp add: float64_def Let_def e_def E_def)
  also have "\<dots> = rat_of_int (m * 2 ^ d) * (1 / (2 ^ q * 2 ^ d))"
    unfolding ulp scaled np_round_of_int ..
  also have "\<dots> = x"
    by (simp add: x_def)
  finally show ?thesis
    by (simp add: x_def)
qed

subsection \<open>Shape\<close>

lemma length_cumsum_from: "length (cumsum_from acc xs) = length xs"
  by (induction xs arbitrary: acc) (simp_all add: Let_def)

lemma length_cumsum: "length (cumsum a) = length a"
  by (cases a) (simp_all add: cumsum_def length_cumsum_from)

subsection \<open>Prefix sums without rounding\<close>

lemma nth_cumsum_from_exact:
  assumes "list_all is_float64 xs"
    and "\<forall>k \<le> length xs. is_float64 (acc + sum_list (take k xs))"
    and "k < length xs"
  shows "cumsum_from acc xs ! k = acc + sum_list (take (Suc k) xs)"
  using assms
proof (induction xs arbitrary: acc k)
  case Nil
  then show ?case by simp
next
  case (Cons x xs)
  have x: "float64 x = x"
    using Cons.prems(1) by (simp add: is_float64_def)
  have "is_float64 (acc + sum_list (take 1 (x # xs)))"
    using Cons.prems(2) [rule_format, of 1] by simp
  then have s: "float64 (acc + x) = acc + x"
    by (simp add: is_float64_def)
  show ?case
  proof (cases k)
    case 0
    then show ?thesis by (simp add: Let_def x s)
  next
    case (Suc k')
    have "list_all is_float64 xs"
      using Cons.prems(1) by simp
    moreover have "\<forall>i \<le> length xs. is_float64 (acc + x + sum_list (take i xs))"
    proof (intro allI impI)
      fix i assume "i \<le> length xs"
      then have "Suc i \<le> length (x # xs)" by simp
      with Cons.prems(2) have "is_float64 (acc + sum_list (take (Suc i) (x # xs)))"
        by blast
      then show "is_float64 (acc + x + sum_list (take i xs))"
        by (simp add: add.assoc)
    qed
    moreover have "k' < length xs"
      using Cons.prems(3) Suc by simp
    ultimately have "cumsum_from (acc + x) xs ! k' = acc + x + sum_list (take (Suc k') xs)"
      by (rule Cons.IH)
    then show ?thesis
      using Suc by (simp add: Let_def x s add.assoc)
  qed
qed

lemma prefix_sums_exact:
  "list_all is_float64 (prefix_sums a) \<longleftrightarrow> (\<forall>k \<le> length a. is_float64 (sum_list (take k a)))"
  by (auto simp: prefix_sums_def list_all_iff less_Suc_eq_le)

lemma window_sums_exact:
  "list_all is_float64 (window_sums a n)
     \<longleftrightarrow> (\<forall>j \<le> length a - n. is_float64 (sum_list (take n (drop j a))))"
  by (auto simp: window_sums_def list_all_iff less_Suc_eq_le)

lemma nth_cumsum_exact:
  assumes "list_all is_float64 a" and "list_all is_float64 (prefix_sums a)" and "k < length a"
  shows "cumsum a ! k = sum_list (take (Suc k) a)"
proof (cases a)
  case Nil
  with assms(3) show ?thesis by simp
next
  case (Cons x xs)
  have x: "float64 x = x"
    using assms(1) Cons by (simp add: is_float64_def)
  show ?thesis
  proof (cases k)
    case 0
    then show ?thesis by (simp add: Cons cumsum_def x)
  next
    case (Suc k')
    have "list_all is_float64 xs"
      using assms(1) Cons by simp
    moreover have "\<forall>i \<le> length xs. is_float64 (x + sum_list (take i xs))"
    proof (intro allI impI)
      fix i assume "i \<le> length xs"
      then have "Suc i \<le> length a" by (simp add: Cons)
      with assms(2) have "is_float64 (sum_list (take (Suc i) a))"
        by (simp add: prefix_sums_exact)
      then show "is_float64 (x + sum_list (take i xs))"
        by (simp add: Cons)
    qed
    moreover have "k' < length xs"
      using assms(3) Suc Cons by simp
    ultimately have "cumsum_from x xs ! k' = x + sum_list (take (Suc k') xs)"
      by (rule nth_cumsum_from_exact)
    then show ?thesis
      using Suc by (simp add: Cons cumsum_def x)
  qed
qed

lemma sum_list_window:
  fixes a :: "rat list"
  shows "sum_list (take (j + n) a) - sum_list (take j a) = sum_list (take n (drop j a))"
  by (simp add: take_add)

text \<open>The array after the in-place update \<^verbatim>\<open>ret[n:] = ret[n:] - ret[:-n]\<close>.\<close>

lemma differenced_nth_exact:
  assumes "1 \<le> n" and "j + n \<le> length a"
    and "list_all is_float64 a" and "list_all is_float64 (prefix_sums a)"
    and "list_all is_float64 (window_sums a n)"
  shows "(take n (cumsum a)
            @ map2 (\<lambda>x y. float64 (x - y)) (drop n (cumsum a)) (take (length (cumsum a) - n) (cumsum a)))
           ! (j + (n - 1)) = sum_list (take n (drop j a))"
proof (cases j)
  case 0
  with assms(1,2) show ?thesis
    by (simp add: nth_append length_cumsum nth_cumsum_exact [OF assms(3,4)])
next
  case (Suc i)
  with assms have idx: "j + (n - 1) = n + i" by simp
  from assms Suc have i: "i < length a - n" by simp
  have "j \<le> length a - n" using assms(2) by simp
  with assms(5) have window: "float64 (sum_list (take n (drop j a))) = sum_list (take n (drop j a))"
    by (simp add: window_sums_exact is_float64_def)
  have "(take n (cumsum a)
            @ map2 (\<lambda>x y. float64 (x - y)) (drop n (cumsum a)) (take (length (cumsum a) - n) (cumsum a)))
           ! (n + i) = float64 (cumsum a ! (n + i) - cumsum a ! i)"
    using assms(1) i by (simp add: nth_append length_cumsum)
  also have "cumsum a ! (n + i) - cumsum a ! i
      = sum_list (take (Suc i + n) a) - sum_list (take (Suc i) a)"
    using assms(1) i by (simp add: nth_cumsum_exact [OF assms(3,4)] add.commute)
  also have "\<dots> = sum_list (take n (drop j a))"
    unfolding Suc by (rule sum_list_window)
  finally show ?thesis unfolding idx window .
qed

subsection \<open>The prefix-sum average against the windowed mean\<close>

lemma float64_1: "float64 1 = 1"
  using float64_dyadic [of 1 0] by simp

lemma float64_2: "float64 2 = 2"
  using float64_dyadic [of 2 0] by simp

lemma float64_two_53: "float64 9007199254740992 = 9007199254740992"
proof -
  have "float64 9007199254740992
      = of_int (np_round (9007199254740992 / 2 powi (53 - 52) :: rat)) * 2 powi (53 - 52)"
    by (rule float64_eqI) simp_all
  also have "(9007199254740992 / 2 powi (53 - 52) :: rat) = of_int 4503599627370496"
    by simp
  finally show ?thesis
    by (simp only: np_round_of_int) simp
qed

lemma float64_two_52: "float64 4503599627370496 = 4503599627370496"
  using float64_dyadic [of 4503599627370496 0] by simp

text \<open>\<open>2^53 + 1\<close> lies halfway between two float64 values and rounds to the even one.\<close>

lemma float64_two_53_plus_1: "float64 9007199254740993 = 9007199254740992"
proof -
  have "float64 9007199254740993
      = of_int (np_round (9007199254740993 / 2 powi (53 - 52) :: rat)) * 2 powi (53 - 52)"
    by (rule float64_eqI) simp_all
  also have "(9007199254740993 / 2 powi (53 - 52) :: rat) = of_int 4503599627370496 + 1 / 2"
    by simp
  finally show ?thesis
    by (simp only: np_round_tie) simp
qed

text \<open>
  C7, as stated, fails. For \<^verbatim>\<open>a = [2**53, 1, 1]\<close> and \<open>n = 2\<close> the running sum stays at
  \<open>2^53\<close>, because each added 1 is rounded away; the differenced entry for the window
  \<open>[1, 1]\<close> is 0, and \<^verbatim>\<open>ma\<close> returns the mean 0 where the arithmetic mean is 1.
\<close>

theorem ma_absorption_counterexample:
  "ma [9007199254740992, 1, 1] 2 = Inr [4503599627370496, 0]
   \<and> window_mean [9007199254740992, 1, 1] 2 1 = 1"
  by (simp add: ma_def cumsum_def Let_def window_mean_def float64_0 float64_1 float64_2
      float64_two_53 float64_two_52 float64_two_53_plus_1)

text \<open>
  C7, amended. Let \<open>n \<ge> 1\<close> be a float64 value, \<open>a\<close> a list of at least \<open>n\<close> float64 values,
  and let every sum of the first \<open>k\<close> entries and every sum of \<open>n\<close> consecutive entries be a
  float64 value, so that no addition or subtraction of the prefix-sum computation rounds.
  Then \<^verbatim>\<open>ma(a, n)\<close> returns \<open>length a - n + 1\<close> entries, and its \<open>j\<close>-th entry is the
  arithmetic mean of \<open>a[j], ..., a[j+n-1]\<close> rounded to float64: the mean itself when the
  mean is a float64 value.
\<close>

theorem ma_equals_window_mean_when_exact:
  assumes "1 \<le> n" and "n \<le> length a" and "is_float64 (of_nat n)"
    and "list_all is_float64 a" and "list_all is_float64 (prefix_sums a)"
    and "list_all is_float64 (window_sums a n)"
  shows "\<exists>r. ma a n = Inr r \<and> length r = length a - n + 1
             \<and> (\<forall>j < length r. r ! j = float64 (window_mean a n j)
                   \<and> (is_float64 (window_mean a n j) \<longrightarrow> r ! j = window_mean a n j))"
proof -
  define ret1 where "ret1 = take n (cumsum a)
      @ map2 (\<lambda>x y. float64 (x - y)) (drop n (cumsum a)) (take (length (cumsum a) - n) (cumsum a))"
  define r where "r = map (\<lambda>x. float64 (x / float64 (of_nat n))) (drop (n - 1) ret1)"
  have n: "float64 (of_nat n) = of_nat n"
    using assms(3) by (simp add: is_float64_def)
  have ma: "ma a n = Inr r"
    using assms(1,2) by (simp add: ma_def Let_def r_def ret1_def)
  have len1: "length ret1 = length a"
    using assms(1,2) by (simp add: ret1_def length_cumsum)
  have len: "length r = length a - n + 1"
    using assms(1,2) by (simp add: r_def len1)
  have entry: "r ! j = float64 (window_mean a n j)" if "j < length r" for j
  proof -
    from that len assms(1,2) have j: "j + n \<le> length a" by simp
    then have "r ! j = float64 (ret1 ! (n - 1 + j) / of_nat n)"
      using assms(1,2) by (simp add: r_def len1 n)
    also have "ret1 ! (n - 1 + j) = sum_list (take n (drop j a))"
      using differenced_nth_exact [OF assms(1) j assms(4,5,6)] by (simp add: ret1_def add.commute)
    finally show ?thesis by (simp add: window_mean_def)
  qed
  then have "\<forall>j < length r. r ! j = float64 (window_mean a n j)
      \<and> (is_float64 (window_mean a n j) \<longrightarrow> r ! j = window_mean a n j)"
    by (simp add: is_float64_def)
  with ma len show ?thesis by blast
qed

theorem ma_equals_window_mean_when_exact_witness:
  "(1::nat) \<le> 2 \<and> 2 \<le> length [199 / 2, 100, 201 / 2, 101 :: rat]
   \<and> is_float64 (of_nat 2)
   \<and> list_all is_float64 [199 / 2, 100, 201 / 2, 101]
   \<and> list_all is_float64 (prefix_sums [199 / 2, 100, 201 / 2, 101])
   \<and> list_all is_float64 (window_sums [199 / 2, 100, 201 / 2, 101] 2)
   \<and> ma [199 / 2, 100, 201 / 2, 101] 2 = Inr [399 / 4, 401 / 4, 403 / 4]
   \<and> map (window_mean [199 / 2, 100, 201 / 2, 101] 2) [0, 1, 2] = [399 / 4, 401 / 4, 403 / 4]"
proof -
  let ?a = "[199 / 2, 100, 201 / 2, 101 :: rat]"
  have f0: "float64 (199 / 2) = 199 / 2"
    using float64_dyadic [of 199 1] by simp
  have f1: "float64 (100) = 100"
    using float64_dyadic [of 100 0] by simp
  have f2: "float64 (201 / 2) = 201 / 2"
    using float64_dyadic [of 201 1] by simp
  have f3: "float64 (101) = 101"
    using float64_dyadic [of 101 0] by simp
  have f4: "float64 (399 / 2) = 399 / 2"
    using float64_dyadic [of 399 1] by simp
  have f5: "float64 (300) = 300"
    using float64_dyadic [of 300 0] by simp
  have f6: "float64 (401) = 401"
    using float64_dyadic [of 401 0] by simp
  have f7: "float64 (401 / 2) = 401 / 2"
    using float64_dyadic [of 401 1] by simp
  have f8: "float64 (403 / 2) = 403 / 2"
    using float64_dyadic [of 403 1] by simp
  have f9: "float64 (2) = 2"
    using float64_dyadic [of 2 0] by simp
  have f10: "float64 (399 / 4) = 399 / 4"
    using float64_dyadic [of 399 2] by simp
  have f11: "float64 (401 / 4) = 401 / 4"
    using float64_dyadic [of 401 2] by simp
  have f12: "float64 (403 / 4) = 403 / 4"
    using float64_dyadic [of 403 2] by simp
  note fl = f0 f1 f2 f3 f4 f5 f6 f7 f8 f9 f10 f11 f12 float64_0
  have pre: "(1::nat) \<le> 2" "2 \<le> length ?a"
    by simp_all
  have n: "is_float64 (of_nat 2)"
    by (simp add: is_float64_def fl)
  have elems: "list_all is_float64 ?a"
    by (simp add: is_float64_def fl)
  have prefixes: "list_all is_float64 (prefix_sums ?a)"
    by (simp add: prefix_sums_def is_float64_def fl)
  have windows: "list_all is_float64 (window_sums ?a 2)"
    by (simp add: window_sums_def is_float64_def fl)
  have means: "map (window_mean ?a 2) [0, 1, 2] = [399 / 4, 401 / 4, 403 / 4]"
    by (simp add: window_mean_def)
  from ma_equals_window_mean_when_exact [OF pre n elems prefixes windows] obtain r where
    run: "ma ?a 2 = Inr r" and len: "length r = length ?a - 2 + 1"
    and entries: "\<forall>j < length r. r ! j = float64 (window_mean ?a 2 j)
          \<and> (is_float64 (window_mean ?a 2 j) \<longrightarrow> r ! j = window_mean ?a 2 j)"
    by blast
  from len have len3: "length r = 3" by simp
  have at: "r ! j = float64 (window_mean ?a 2 j)" if "j < 3" for j
    using entries that len3 by simp
  have r0: "r ! 0 = 399 / 4"
    using at [of 0] by (simp add: window_mean_def fl)
  have r1: "r ! 1 = 401 / 4"
    using at [of 1] by (simp add: window_mean_def fl)
  have r2: "r ! 2 = 403 / 4"
    using at [of 2] by (simp add: window_mean_def fl)
  have "r = [399 / 4, 401 / 4, 403 / 4]"
  proof (rule nth_equalityI)
    show "length r = length [399 / 4, 401 / 4, 403 / 4 :: rat]" using len3 by simp
    fix j assume "j < length r"
    with len3 have "j = 0 \<or> j = 1 \<or> j = 2" by auto
    with r0 r1 r2 show "r ! j = [399 / 4, 401 / 4, 403 / 4] ! j"
      by auto
  qed
  with run pre n elems prefixes windows means show ?thesis by simp
qed

section \<open>The directional rule and the order sizes\<close>

lemma np_round_0: "np_round (0 :: real) = 0"
  using np_round_of_int [of 0, where 'a = real] by simp

lemma powr_035_pow20:
  fixes x :: real
  assumes "0 < x"
  shows "(x powr 0.35) ^ 20 = x ^ 7"
  using assms powr_powr [of x "0.35" 20] by simp

text \<open>Evaluating \<^verbatim>\<open>np.round(v**0.35)\<close> at a concrete depth by comparing 20th powers.\<close>

lemma depth_size_eqI:
  assumes "0 < v" and "1 \<le> k"
    and "(2 * k - 1) ^ 20 < 2 ^ 20 * int v ^ 7"
    and "2 ^ 20 * int v ^ 7 < (2 * k + 1) ^ 20"
  shows "np_round (real v powr 0.35) = k"
proof (rule np_round_eqI)
  define y where "y = real v powr 0.35"
  have y0: "0 \<le> y" by (simp add: y_def)
  have y20: "y ^ 20 = real v ^ 7"
    unfolding y_def using assms(1) by (intro powr_035_pow20) simp
  have "real_of_int ((2 * k - 1) ^ 20) < real_of_int (2 ^ 20 * int v ^ 7)"
    using assms(3) by (simp only: of_int_less_iff)
  then have "(2 * real_of_int k - 1) ^ 20 < (2 * y) ^ 20"
    by (simp add: y20 power_mult_distrib)
  then have "2 * real_of_int k - 1 < 2 * y"
    by (rule power_less_imp_less_base) (use y0 in simp)
  then show "real_of_int k - 1 / 2 < real v powr 0.35"
    by (simp add: y_def)
  have "real_of_int (2 ^ 20 * int v ^ 7) < real_of_int ((2 * k + 1) ^ 20)"
    using assms(4) by (simp only: of_int_less_iff)
  then have "(2 * y) ^ 20 < (2 * real_of_int k + 1) ^ 20"
    by (simp add: y20 power_mult_distrib)
  then have "2 * y < 2 * real_of_int k + 1"
    by (rule power_less_imp_less_base) (use assms(2) in simp)
  then show "real v powr 0.35 < real_of_int k + 1 / 2"
    by (simp add: y_def)
qed

lemma depth_size_100: "np_round (real 100 powr 0.35) = 5"
  by (rule depth_size_eqI) simp_all

lemma depth_size_30: "np_round (real 30 powr 0.35) = 3"
  by (rule depth_size_eqI) simp_all

lemma floor_le_np_round: "\<lfloor>x\<rfloor> \<le> np_round x"
  by (simp add: np_round_def Let_def)

text \<open>On a level that holds at least one share the size formula gives at least 1.\<close>

lemma depth_size_pos:
  assumes "1 \<le> v"
  shows "1 \<le> np_round (real v powr 0.35)"
proof -
  have "1 \<le> real v powr 0.35"
    using assms by (intro ge_one_powr_ge_zero) simp_all
  then have "1 \<le> \<lfloor>real v powr 0.35\<rfloor>"
    by (simp add: le_floor_iff)
  with floor_le_np_round [of "real v powr 0.35"] show ?thesis by linarith
qed

text \<open>
  C8. With both quotes present and \<open>mid = (bid + ask) / 2\<close>: an estimate above \<open>mid\<close> gives
  exactly one market buy of size \<^verbatim>\<open>np.round(asksize**0.35)\<close>, an estimate below \<open>mid\<close>
  exactly one market sell of size \<^verbatim>\<open>np.round(bidsize**0.35)\<close>, and an estimate equal to
  \<open>mid\<close> no order and an unchanged agent.
\<close>

theorem zi_directional_rule:
  assumes "bid snap = Some b" and "ask snap = Some a"
  shows "(let mid = (rat_of_int b + rat_of_int a) / 2;
              estimate = updateEstimates obs;
              result = zi_placeOrder snap obs s
          in (mid < estimate \<longrightarrow>
                (\<exists>s'. result = Inr (s', [PlaceMarketOrder (np_round (real (asksize snap) powr 0.35)) True])))
           \<and> (estimate < mid \<longrightarrow>
                (\<exists>s'. result = Inr (s', [PlaceMarketOrder (np_round (real (bidsize snap) powr 0.35)) False])))
           \<and> (estimate = mid \<longrightarrow> result = Inr (s, [])))"
  using assms by (simp add: zi_placeOrder_def Let_def)

theorem zi_directional_rule_witness:
  "bid (quote 99 30 101 100) = Some 99 \<and> ask (quote 99 30 101 100) = Some 101
   \<and> (rat_of_int 99 + rat_of_int 101) / 2 < updateEstimates 105
   \<and> updateEstimates 95 < (rat_of_int 99 + rat_of_int 101) / 2
   \<and> updateEstimates 100 = (rat_of_int 99 + rat_of_int 101) / 2
   \<and> (\<exists>s'. zi_placeOrder (quote 99 30 101 100) 105 (zi_init rng0) = Inr (s', [PlaceMarketOrder 5 True]))
   \<and> (\<exists>s'. zi_placeOrder (quote 99 30 101 100) 95 (zi_init rng0) = Inr (s', [PlaceMarketOrder 3 False]))
   \<and> zi_placeOrder (quote 99 30 101 100) 100 (zi_init rng0) = Inr (zi_init rng0, [])"
proof -
  let ?q = "quote 99 30 101 100"
  have pre: "bid ?q = Some 99" "ask ?q = Some 101"
    by (simp_all add: quote_def)
  have sizes: "np_round (real (asksize ?q) powr 0.35) = 5" "np_round (real (bidsize ?q) powr 0.35) = 3"
    using depth_size_100 depth_size_30 by (simp_all add: quote_def)
  have est: "updateEstimates 105 = 105" "updateEstimates 95 = 95" "updateEstimates 100 = 100"
    using np_round_of_int [of 105, where 'a = rat] np_round_of_int [of 95, where 'a = rat]
      np_round_of_int [of 100, where 'a = rat]
    by (simp_all add: updateEstimates_def)
  have buy: "\<exists>s'. zi_placeOrder ?q 105 (zi_init rng0) = Inr (s', [PlaceMarketOrder 5 True])"
    using zi_directional_rule [OF pre, of 105 "zi_init rng0"]
    unfolding Let_def est sizes by simp
  have sell: "\<exists>s'. zi_placeOrder ?q 95 (zi_init rng0) = Inr (s', [PlaceMarketOrder 3 False])"
    using zi_directional_rule [OF pre, of 95 "zi_init rng0"]
    unfolding Let_def est sizes by simp
  have none: "zi_placeOrder ?q 100 (zi_init rng0) = Inr (zi_init rng0, [])"
    using zi_directional_rule [OF pre, of 100 "zi_init rng0"]
    unfolding Let_def est by simp
  from pre buy sell none show ?thesis by (simp add: est)
qed

text \<open>
  C4 fails on the code. The size \<^verbatim>\<open>np.round(asksize**0.35)\<close> is passed to
  \<^verbatim>\<open>placeMarketOrder\<close> as computed, with no floor and no test: on a snapshot whose ask
  level reports size 0 the market-order agent submits a buy of quantity 0.
\<close>

theorem zi_zero_quantity_submitted:
  "map_sum id snd (zi_placeOrder (quote 99 10 101 0) 105 (zi_init rng0)) = Inr [PlaceMarketOrder 0 True]"
  using np_round_of_int [of 105, where 'a = rat]
  by (simp add: zi_placeOrder_def quote_def updateEstimates_def Let_def np_round_0)

text \<open>
  C5 fails on the code. With the bid side empty, \<^verbatim>\<open>placeOrder\<close> of the market-order agent
  adds \<^verbatim>\<open>None\<close> to the ask and raises \<^verbatim>\<open>TypeError\<close>, and \<^verbatim>\<open>receiveMessage\<close> passes
  the exception on.
\<close>

theorem zi_missing_quote_raises:
  "zi_placeOrder \<lparr>bid = None, bidsize = 0, ask = Some 101, asksize = 10\<rparr> 105 (zi_init rng0) = Inl TypeError
   \<and> zi_receiveMessage market_trading ''QUERY_SPREAD'' \<lparr>bid = None, bidsize = 0, ask = Some 101, asksize = 10\<rparr> 105
        zi_requested = Inl TypeError"
  by (simp add: zi_placeOrder_def zi_receiveMessage_def zi_requested_eq market_trading_def)

text \<open>The momentum agent does test the quotes: a missing one skips the decision.\<close>

lemma momentum_missing_quote_skips:
  assumes "state s = AWAITING_SPREAD" and "\<not> truthy (bid snap) \<or> \<not> truthy (ask snap)"
  shows "\<exists>s'. momentum_receiveMessage t ''QUERY_SPREAD'' snap s
            = Inr (s', [SetWakeup (t + np_round (fst (draw (random_state s))))])
          \<and> state s' = AWAITING_WAKEUP \<and> mid_list s' = mid_list s"
  using assms
  by (auto simp: momentum_receiveMessage_def Let_def split_beta getWakeFrequency_def)

section \<open>The mid-price window\<close>

lemma ma_returns:
  assumes "1 \<le> n" and "n \<le> length a"
  shows "\<exists>r. ma a n = Inr r \<and> r \<noteq> []"
proof -
  define ret1 where "ret1 = take n (cumsum a)
      @ map2 (\<lambda>x y. float64 (x - y)) (drop n (cumsum a)) (take (length (cumsum a) - n) (cumsum a))"
  have "length ret1 = length a"
    using assms by (simp add: ret1_def length_cumsum)
  with assms have "n - 1 < length ret1" by simp
  then have nonempty: "drop (n - 1) ret1 \<noteq> []" by simp
  have "ma a n = Inr (map (\<lambda>x. float64 (x / float64 (of_nat n))) (drop (n - 1) ret1))"
    using assms by (simp add: ma_def Let_def ret1_def)
  with nonempty show ?thesis by simp
qed

lemma momentum_crossover_returns:
  assumes "1 \<le> short_duration s" and "short_duration s \<le> length (tl (mid_list s))"
    and "1 \<le> long_duration s" and "long_duration s \<le> length (tl (mid_list s))"
  shows "\<exists>s' acts. momentum_crossover s = Inr (s', acts)
           \<and> mid_list s' = tl (mid_list s)
           \<and> long_duration s' = long_duration s \<and> short_duration s' = short_duration s
           \<and> random_state s' = random_state s"
proof -
  from ma_returns [OF assms(1,2)] obtain shorts where
    shorts: "ma (tl (mid_list s)) (short_duration s) = Inr shorts" "shorts \<noteq> []" by blast
  from ma_returns [OF assms(3,4)] obtain longs where
    longs: "ma (tl (mid_list s)) (long_duration s) = Inr longs" "longs \<noteq> []" by blast
  show ?thesis
    by (simp add: momentum_crossover_def Let_def shorts longs last_item_def)
qed

lemma last_window:
  "drop (length (drop (length A - n) A @ B) - n) (drop (length A - n) A @ B)
     = drop (length (A @ B) - n) (A @ B)"
  by (cases "length A \<le> n") (auto simp: add.commute)

lemma momentum_cycle_window:
  fixes L :: nat
  assumes "long_duration s = L" and "1 \<le> short_duration s" and "short_duration s \<le> L"
    and "length (mid_list s) \<le> L"
  shows "\<exists>s' acts. momentum_cycle c s = Inr (s', acts)
           \<and> long_duration s' = L \<and> short_duration s' = short_duration s
           \<and> mid_list s' = drop (length (mid_list s @ mid_samples [c]) - L) (mid_list s @ mid_samples [c])
           \<and> (length (mid_list s) + length (mid_samples [c]) \<le> L \<longrightarrow> \<not> list_ex is_order acts)"
proof (cases "truthy (bid (snd c)) \<and> truthy (ask (snd c))")
  case False
  then show ?thesis
    using assms
    by (auto simp: momentum_cycle_def momentum_wakeup_def momentum_receiveMessage_def
        getWakeFrequency_def Let_def split_beta)
next
  case True
  define mid where "mid = (rat_of_int (the (bid (snd c))) + rat_of_int (the (ask (snd c)))) / 2"
  have ms: "mid_samples [c] = [mid]"
    using True by (simp add: mid_def)
  show ?thesis
  proof (cases "length (mid_list s) < L")
    case True
    then show ?thesis
      using assms \<open>truthy (bid (snd c)) \<and> truthy (ask (snd c))\<close>
      by (auto simp: momentum_cycle_def momentum_wakeup_def momentum_receiveMessage_def
          getWakeFrequency_def Let_def split_beta)
  next
    case False
    with assms have full: "length (mid_list s) = L" by simp
    define s2 where "s2 = s\<lparr>state := AWAITING_SPREAD, bidvol := bidsize (snd c),
        askvol := asksize (snd c), mid_list := mid_list s @ [mid]\<rparr>"
    have "1 \<le> short_duration s2" "short_duration s2 \<le> length (tl (mid_list s2))"
      "1 \<le> long_duration s2" "long_duration s2 \<le> length (tl (mid_list s2))"
      using assms full by (simp_all add: s2_def)
    from momentum_crossover_returns [OF this] obtain s3 acts where
      s3: "momentum_crossover s2 = Inr (s3, acts)" "mid_list s3 = tl (mid_list s2)"
        "long_duration s3 = long_duration s2" "short_duration s3 = short_duration s2"
      by blast
    have "momentum_cycle c s = Inr (snd (getWakeFrequency s3)\<lparr>state := AWAITING_WAKEUP\<rparr>,
        [GetCurrentSpread] @ acts @ [SetWakeup (fst c + fst (getWakeFrequency s3))])"
      using \<open>truthy (bid (snd c)) \<and> truthy (ask (snd c))\<close> full s3(1) assms(1)
      by (simp add: momentum_cycle_def momentum_wakeup_def momentum_receiveMessage_def
          Let_def split_beta mid_def s2_def)
    moreover have "mid_list s3 = drop (length (mid_list s @ mid_samples [c]) - L) (mid_list s @ mid_samples [c])"
      unfolding ms using s3(2) full by (cases "mid_list s") (simp_all add: s2_def)
    ultimately show ?thesis
      unfolding ms using s3(3,4) assms full
      by (simp add: getWakeFrequency_def split_beta s2_def)
  qed
qed


lemma mid_samples_Cons: "mid_samples (c # cs) = mid_samples [c] @ mid_samples cs"
  by simp

lemma momentum_run_window:
  fixes L :: nat
  assumes "long_duration s = L" and "1 \<le> short_duration s" and "short_duration s \<le> L"
    and "length (mid_list s) \<le> L"
  shows "\<exists>s' acts. momentum_run s cs = Inr (s', acts)
           \<and> mid_list s' = drop (length (mid_list s @ mid_samples cs) - L) (mid_list s @ mid_samples cs)
           \<and> (length (mid_list s) + length (mid_samples cs) \<le> L \<longrightarrow> \<not> list_ex is_order acts)"
  using assms
proof (induction cs arbitrary: s)
  case Nil
  then show ?case by simp
next
  case (Cons c cs)
  from momentum_cycle_window [OF Cons.prems, of c] obtain s1 a1 where
    s1: "momentum_cycle c s = Inr (s1, a1)" "long_duration s1 = L"
      "short_duration s1 = short_duration s"
      "mid_list s1 = drop (length (mid_list s @ mid_samples [c]) - L) (mid_list s @ mid_samples [c])"
      "length (mid_list s) + length (mid_samples [c]) \<le> L \<longrightarrow> \<not> list_ex is_order a1"
    by blast
  have len1: "length (mid_list s1) \<le> L"
    using Cons.prems(4) by (simp add: s1(4))
  have short1: "1 \<le> short_duration s1" "short_duration s1 \<le> L"
    using Cons.prems(2,3) by (simp_all add: s1(3))
  from Cons.IH [OF s1(2) short1 len1] obtain s2 a2 where
    s2: "momentum_run s1 cs = Inr (s2, a2)"
      "mid_list s2 = drop (length (mid_list s1 @ mid_samples cs) - L) (mid_list s1 @ mid_samples cs)"
      "length (mid_list s1) + length (mid_samples cs) \<le> L \<longrightarrow> \<not> list_ex is_order a2"
    by blast
  have run: "momentum_run s (c # cs) = Inr (s2, a1 @ a2)"
    by (simp add: s1(1) s2(1))
  have window: "mid_list s2 = drop (length (mid_list s @ mid_samples (c # cs)) - L)
      (mid_list s @ mid_samples (c # cs))"
    unfolding s2(2) s1(4) mid_samples_Cons [of c cs]
    using last_window [of "mid_list s @ mid_samples [c]" L "mid_samples cs"] by simp
  have quiet: "\<not> list_ex is_order (a1 @ a2)"
    if "length (mid_list s) + length (mid_samples (c # cs)) \<le> L"
  proof -
    from that have *: "length (mid_list s) + length (mid_samples [c]) + length (mid_samples cs) \<le> L"
      unfolding mid_samples_Cons [of c cs] by simp
    then have "\<not> list_ex is_order a1" using s1(5) by simp
    moreover have "length (mid_list s1) \<le> length (mid_list s) + length (mid_samples [c])"
      unfolding s1(4) by simp
    with * have "\<not> list_ex is_order a2" using s2(3) by simp
    ultimately show ?thesis by simp
  qed
  from run window quiet show ?case by blast
qed

lemma momentum_cycle_quiet:
  fixes L :: nat
  assumes "long_duration s = L" and "length (mid_list s) + length (mid_samples [c]) \<le> L"
  shows "\<exists>s' acts. momentum_cycle c s = Inr (s', acts)
           \<and> long_duration s' = L \<and> mid_list s' = mid_list s @ mid_samples [c]
           \<and> \<not> list_ex is_order acts"
  using assms
  by (auto simp: momentum_cycle_def momentum_wakeup_def momentum_receiveMessage_def
      getWakeFrequency_def Let_def split_beta)

lemma momentum_run_quiet:
  fixes L :: nat
  assumes "long_duration s = L" and "length (mid_list s) + length (mid_samples cs) \<le> L"
  shows "\<exists>s' acts. momentum_run s cs = Inr (s', acts)
           \<and> mid_list s' = mid_list s @ mid_samples cs \<and> \<not> list_ex is_order acts"
  using assms
proof (induction cs arbitrary: s)
  case Nil
  then show ?case by simp
next
  case (Cons c cs)
  from Cons.prems(2) have room:
    "length (mid_list s) + length (mid_samples [c]) + length (mid_samples cs) \<le> L"
    unfolding mid_samples_Cons [of c cs] by simp
  then have "length (mid_list s) + length (mid_samples [c]) \<le> L" by simp
  from momentum_cycle_quiet [OF Cons.prems(1) this] obtain s1 a1 where
    s1: "momentum_cycle c s = Inr (s1, a1)" "long_duration s1 = L"
      "mid_list s1 = mid_list s @ mid_samples [c]" "\<not> list_ex is_order a1"
    by blast
  from room have "length (mid_list s1) + length (mid_samples cs) \<le> L"
    by (simp add: s1(3))
  from Cons.IH [OF s1(2) this] obtain s2 a2 where
    s2: "momentum_run s1 cs = Inr (s2, a2)" "mid_list s2 = mid_list s1 @ mid_samples cs"
      "\<not> list_ex is_order a2"
    by blast
  have "momentum_run s (c # cs) = Inr (s2, a1 @ a2)"
    by (simp add: s1(1) s2(1))
  moreover have "mid_list s2 = mid_list s @ mid_samples (c # cs)"
    unfolding s2(2) s1(3) mid_samples_Cons [of c cs] by simp
  ultimately show ?case using s1(4) s2(3) by simp
qed

lemma momentum_crossover_fields:
  assumes "momentum_crossover s = Inr (s', acts)"
  shows "mid_list s' = tl (mid_list s) \<and> long_duration s' = long_duration s"
  using assms
  by (auto simp: momentum_crossover_def Let_def split: sum.splits if_splits)

lemma momentum_cycle_window_if_returns:
  fixes L :: nat
  assumes "long_duration s = L" and "length (mid_list s) \<le> L"
    and "momentum_cycle c s = Inr (s', acts)"
  shows "long_duration s' = L
         \<and> mid_list s' = drop (length (mid_list s @ mid_samples [c]) - L) (mid_list s @ mid_samples [c])"
proof (cases "truthy (bid (snd c)) \<and> truthy (ask (snd c)) \<and> length (mid_list s) = L")
  case False
  then show ?thesis
    using assms
    by (auto simp: momentum_cycle_def momentum_wakeup_def momentum_receiveMessage_def
        getWakeFrequency_def Let_def split_beta)
next
  case True
  define mid where "mid = (rat_of_int (the (bid (snd c))) + rat_of_int (the (ask (snd c)))) / 2"
  have ms: "mid_samples [c] = [mid]"
    using True by (simp add: mid_def)
  define s2 where "s2 = s\<lparr>state := AWAITING_SPREAD, bidvol := bidsize (snd c),
      askvol := asksize (snd c), mid_list := mid_list s @ [mid]\<rparr>"
  from assms(3) True assms(1) obtain s3 where
    s3: "momentum_crossover s2 = Inr (s3, butlast (tl acts))"
      and s': "s' = snd (getWakeFrequency s3)\<lparr>state := AWAITING_WAKEUP\<rparr>"
    by (auto simp: momentum_cycle_def momentum_wakeup_def momentum_receiveMessage_def
        Let_def split_beta mid_def s2_def split: sum.splits)
  from momentum_crossover_fields [OF s3]
  have "mid_list s3 = tl (mid_list s @ [mid])" "long_duration s3 = L"
    using assms(1) by (simp_all add: s2_def)
  moreover have "tl (mid_list s @ [mid]) = drop (length (mid_list s @ [mid]) - L) (mid_list s @ [mid])"
    using True by (cases "mid_list s") auto
  ultimately show ?thesis
    unfolding ms s' by (simp add: getWakeFrequency_def split_beta)
qed

lemma momentum_run_window_if_returns:
  fixes L :: nat
  assumes "long_duration s = L" and "length (mid_list s) \<le> L"
    and "momentum_run s cs = Inr (s', acts)"
  shows "mid_list s' = drop (length (mid_list s @ mid_samples cs) - L) (mid_list s @ mid_samples cs)"
  using assms
proof (induction cs arbitrary: s acts)
  case Nil
  then show ?case by simp
next
  case (Cons c cs)
  from Cons.prems(3) obtain s1 a1 a2 where
    step: "momentum_cycle c s = Inr (s1, a1)" and rest: "momentum_run s1 cs = Inr (s', a2)"
    by (auto split: sum.splits)
  from momentum_cycle_window_if_returns [OF Cons.prems(1,2) step]
  have s1: "long_duration s1 = L"
    "mid_list s1 = drop (length (mid_list s @ mid_samples [c]) - L) (mid_list s @ mid_samples [c])"
    by simp_all
  have "length (mid_list s1) \<le> L"
    using Cons.prems(2) by (simp add: s1(2))
  from Cons.IH [OF s1(1) this rest]
  show ?case
    unfolding s1(2) mid_samples_Cons [of c cs]
    using last_window [of "mid_list s @ mid_samples [c]" L "mid_samples cs"] by simp
qed

text \<open>
  C9. A momentum agent with long window 40 and an empty window runs any sequence of
  decision cycles. While fewer than 41 mid-prices have been appended, the run completes,
  emits no order and the window holds all samples. After any run that completes, the
  window holds exactly the most recent 40 samples (all of them when there are fewer): it
  never exceeds 40 entries and has exactly 40 once 41 or more samples were seen. Every
  run completes when the short window is between 1 and 40, so that both averages exist.
\<close>

theorem momentum_window_of_40:
  assumes "long_duration s = 40" and "mid_list s = []"
  shows "(length (mid_samples cs) < 41 \<longrightarrow>
            (\<exists>s' acts. momentum_run s cs = Inr (s', acts) \<and> \<not> list_ex is_order acts
               \<and> mid_list s' = mid_samples cs))
       \<and> (\<forall>s' acts. momentum_run s cs = Inr (s', acts) \<longrightarrow>
            mid_list s' = drop (length (mid_samples cs) - 40) (mid_samples cs)
            \<and> length (mid_list s') \<le> 40
            \<and> (41 \<le> length (mid_samples cs) \<longrightarrow> length (mid_list s') = 40))
       \<and> (1 \<le> short_duration s \<and> short_duration s \<le> 40 \<longrightarrow>
            (\<exists>s' acts. momentum_run s cs = Inr (s', acts)))"
proof (intro conjI impI allI)
  assume "length (mid_samples cs) < 41"
  then have "length (mid_list s) + length (mid_samples cs) \<le> 40"
    using assms(2) by simp
  from momentum_run_quiet [OF assms(1) this]
  show "\<exists>s' acts. momentum_run s cs = Inr (s', acts) \<and> \<not> list_ex is_order acts
      \<and> mid_list s' = mid_samples cs"
    using assms(2) by auto
next
  fix s' acts
  assume run: "momentum_run s cs = Inr (s', acts)"
  have "length (mid_list s) \<le> 40" using assms(2) by simp
  from momentum_run_window_if_returns [OF assms(1) this run]
  have w: "mid_list s' = drop (length (mid_samples cs) - 40) (mid_samples cs)"
    using assms(2) by simp
  then show "mid_list s' = drop (length (mid_samples cs) - 40) (mid_samples cs)" .
  show "length (mid_list s') \<le> 40"
    unfolding w by simp
  show "length (mid_list s') = 40" if "41 \<le> length (mid_samples cs)"
    unfolding w using that by simp
next
  assume short: "1 \<le> short_duration s \<and> short_duration s \<le> 40"
  have "length (mid_list s) \<le> 40" using assms(2) by simp
  with momentum_run_window [OF assms(1), of cs] short
  show "\<exists>s' acts. momentum_run s cs = Inr (s', acts)"
    by blast
qed

lemma mid_samples_replicate:
  assumes "b \<noteq> 0" and "a \<noteq> 0"
  shows "mid_samples (replicate n (t, quote b bs a as))
     = replicate n ((rat_of_int b + rat_of_int a) / 2)"
  using assms by (induction n) (simp_all add: quote_def truthy_def)

theorem momentum_window_of_40_witness:
  "long_duration (momentum_init rng0) = 40 \<and> mid_list (momentum_init rng0) = []
   \<and> 1 \<le> short_duration (momentum_init rng0) \<and> short_duration (momentum_init rng0) \<le> 40
   \<and> mid_samples (replicate 41 (0, quote 99 30 101 100)) = replicate 41 100
   \<and> (\<exists>s' acts. momentum_run (momentum_init rng0) (replicate 41 (0, quote 99 30 101 100)) = Inr (s', acts)
         \<and> mid_list s' = replicate 40 100)
   \<and> (\<exists>s' acts. momentum_run (momentum_init rng0) (replicate 40 (0, quote 99 30 101 100)) = Inr (s', acts)
         \<and> \<not> list_ex is_order acts \<and> mid_list s' = replicate 40 100)"
proof -
  let ?s = "momentum_init rng0"
  have pre: "long_duration ?s = 40" "mid_list ?s = []"
    by (simp_all add: momentum_init_eq)
  have short: "1 \<le> short_duration ?s \<and> short_duration ?s \<le> 40"
    by (simp add: momentum_init_eq)
  have samples: "mid_samples (replicate n (0, quote 99 30 101 100)) = replicate n 100" for n
    by (simp add: mid_samples_replicate)
  note at41 = momentum_window_of_40 [OF pre, of "replicate 41 (0, quote 99 30 101 100)",
      unfolded samples]
  from at41 short obtain s' acts where
    run: "momentum_run ?s (replicate 41 (0, quote 99 30 101 100)) = Inr (s', acts)"
    by blast
  with at41 have "mid_list s' = drop (length (replicate 41 (100::rat)) - 40) (replicate 41 100)"
    by blast
  then have "mid_list s' = replicate 40 100"
    by simp
  with run have full: "\<exists>s' acts. momentum_run ?s (replicate 41 (0, quote 99 30 101 100)) = Inr (s', acts)
      \<and> mid_list s' = replicate 40 100"
    by blast
  have quiet: "\<exists>s' acts. momentum_run ?s (replicate 40 (0, quote 99 30 101 100)) = Inr (s', acts)
      \<and> \<not> list_ex is_order acts \<and> mid_list s' = replicate 40 100"
    using momentum_window_of_40 [OF pre, of "replicate 40 (0, quote 99 30 101 100)"]
    unfolding samples by auto
  from pre short samples [of 41] full quiet show ?thesis by blast
qed

section \<open>Random streams\<close>

text \<open>
  C10 fails on the code. \<^verbatim>\<open>getOrderSize\<close> draws its power-law sample from numpy's
  process-wide generator, not from \<^verbatim>\<open>self.random_state\<close>: the same agent with the same
  private stream gets order size 140 under one state of the process-wide generator and
  280 under another, and its private stream advances identically in both runs.
\<close>

theorem getOrderSize_reads_global_stream:
  "map_sum id (\<lambda>r. (order_size (fst r), random_state (fst r)))
       (getOrderSize np_random_a (zi_init seeded))
     = Inr (140, \<lparr>draws = (\<lambda>n. 1 / 2), pos = 1\<rparr>)
   \<and> map_sum id (\<lambda>r. (order_size (fst r), random_state (fst r)))
       (getOrderSize np_random_b (zi_init seeded))
     = Inr (280, \<lparr>draws = (\<lambda>n. 1 / 2), pos = 1\<rparr>)"
  by (simp add: getOrderSize_def draw_def np_random_a_def np_random_b_def seeded_def zi_init_def)

end
